theory Spec2Isabelle
  imports Main "HOL-Library.Sublist"
begin

section \<open>Go standard library functions used by the scan package\<close>

text \<open>
  A Go \<^verbatim>\<open>string\<close> is an immutable sequence of bytes; it is modelled as a
  \<^typ>\<open>string\<close>, whose characters are 8-bit. A Go \<^verbatim>\<open>error\<close> is modelled by the
  message its \<^verbatim>\<open>Error()\<close> method returns.
\<close>

datatype error = Error string

fun error_message :: "error \<Rightarrow> string" where
  "error_message (Error m) = m"

subsection \<open>strings.Index, strings.Count\<close>

text \<open>
  \<^verbatim>\<open>strings.Index(s, substr)\<close>: the byte offset of the first instance of \<^verbatim>\<open>substr\<close> in
  \<^verbatim>\<open>s\<close>; Go returns \<^verbatim>\<open>-1\<close> when there is none, the model returns \<open>None\<close>.
\<close>

fun strings_Index :: "string \<Rightarrow> string \<Rightarrow> nat option" where
  "strings_Index [] substr = (if substr = [] then Some 0 else None)"
| "strings_Index (c # cs) substr =
     (if prefix substr (c # cs) then Some 0 else map_option Suc (strings_Index cs substr))"

lemma strings_Index_bound:
  "strings_Index s substr = Some i \<Longrightarrow> i + length substr \<le> length s"
proof (induction s arbitrary: i)
  case Nil
  then show ?case by (simp split: if_splits)
next
  case (Cons c cs)
  show ?case
  proof (cases "prefix substr (c # cs)")
    case True
    with Cons.prems show ?thesis by (auto dest: prefix_length_le)
  next
    case False
    with Cons.prems obtain k where "strings_Index cs substr = Some k" "i = Suc k"
      by auto
    with Cons.IH show ?thesis by fastforce
  qed
qed

text \<open>
  \<^verbatim>\<open>utf8.DecodeRuneInString\<close>, its second result: the width in bytes of the UTF-8
  sequence at the start of \<^verbatim>\<open>s\<close>. An invalid or truncated encoding has width 1, the
  empty string width 0. The acceptable range of the second byte depends on the first
  byte (no overlong forms, no surrogates, nothing above U+10FFFF).
\<close>

definition rune_width :: "string \<Rightarrow> nat" where
  "rune_width s =
     (case s of
        [] \<Rightarrow> 0
      | c0 # _ \<Rightarrow>
          (let b0 = (of_char c0 :: nat) in
           if b0 < 0x80 then 1
           else if b0 < 0xC2 \<or> 0xF4 < b0 then 1
           else
             (let sz = (if b0 < 0xE0 then 2 else if b0 < 0xF0 then 3 else 4 :: nat);
                  lo = (if b0 = 0xE0 then 0xA0 else if b0 = 0xF0 then 0x90 else 0x80 :: nat);
                  hi = (if b0 = 0xED then 0x9F else if b0 = 0xF4 then 0x8F else 0xBF :: nat)
              in if length s < sz then 1
                 else if (of_char (s ! 1) :: nat) < lo \<or> hi < (of_char (s ! 1) :: nat) then 1
                 else if sz \<le> 2 then 2
                 else if (of_char (s ! 2) :: nat) < 0x80 \<or> 0xBF < (of_char (s ! 2) :: nat) then 1
                 else if sz \<le> 3 then 3
                 else if (of_char (s ! 3) :: nat) < 0x80 \<or> 0xBF < (of_char (s ! 3) :: nat) then 1
                 else 4)))"

lemma rune_width_pos: "s \<noteq> [] \<Longrightarrow> 0 < rune_width s"
  by (cases s) (simp_all add: rune_width_def Let_def)

lemma rune_width_le: "rune_width s \<le> length s"
proof (cases s)
  case Nil
  then show ?thesis by (simp add: rune_width_def)
next
  case (Cons c cs)
  have "0 < length s" using Cons by simp
  then show ?thesis
    unfolding rune_width_def Let_def Cons list.case
    by (auto split: if_splits simp: Suc_le_eq less_Suc_eq_le)
qed

text \<open>\<^verbatim>\<open>utf8.RuneCountInString\<close>: the number of UTF-8 sequences in \<^verbatim>\<open>s\<close>, every invalid
  byte counting as one sequence of width 1.\<close>

function utf8_RuneCountInString :: "string \<Rightarrow> nat" where
  "utf8_RuneCountInString s =
     (if s = [] then 0 else Suc (utf8_RuneCountInString (drop (rune_width s) s)))"
  by pat_completeness auto
termination
  by (relation "measure length") (auto simp: rune_width_pos)

declare utf8_RuneCountInString.simps [simp del]

text \<open>The UTF-8 sequences of \<^verbatim>\<open>s\<close> in order, as \<^verbatim>\<open>DecodeRuneInString\<close> delimits them:
  the characters of the string, an invalid byte being a character of its own.\<close>

function runes :: "string \<Rightarrow> string list" where
  "runes s = (if s = [] then [] else take (rune_width s) s # runes (drop (rune_width s) s))"
  by pat_completeness auto
termination
  by (relation "measure length") (auto simp: rune_width_pos)

declare runes.simps [simp del]

text \<open>
  The counting loop of \<^verbatim>\<open>strings.Count\<close> for a non-empty \<^verbatim>\<open>substr\<close>:
  \<^verbatim>\<open>for { i := Index(s, substr); if i == -1 { return n }; n++; s = s[i+len(substr):] }\<close>.
  Go enters it only with a non-empty \<^verbatim>\<open>substr\<close>; the first test keeps the model total.
\<close>

function count_loop :: "string \<Rightarrow> string \<Rightarrow> nat \<Rightarrow> nat" where
  "count_loop s substr n =
     (if substr = [] then n
      else case strings_Index s substr of
             None \<Rightarrow> n
           | Some i \<Rightarrow> count_loop (drop (i + length substr) s) substr (Suc n))"
  by pat_completeness auto
termination
proof (relation "measure (\<lambda>(s, substr, n). length s)", goal_cases)
  case 1
  then show ?case by simp
next
  case (2 s substr n i)
  from strings_Index_bound[OF 2(2)] 2(1) show ?case
    by (cases substr) auto
qed

declare count_loop.simps [simp del]

text \<open>\<^verbatim>\<open>strings.Count(s, substr)\<close>: the number of non-overlapping instances of \<^verbatim>\<open>substr\<close>
  in \<^verbatim>\<open>s\<close>; for the empty \<^verbatim>\<open>substr\<close>, one more than the number of UTF-8 sequences.\<close>

definition strings_Count :: "string \<Rightarrow> string \<Rightarrow> nat" where
  "strings_Count s substr =
     (if substr = [] then utf8_RuneCountInString s + 1 else count_loop s substr 0)"

subsection \<open>strings.Replace\<close>

text \<open>
  The replacement loop of \<^verbatim>\<open>strings.Replace\<close>. \<open>k\<close> is the number of iterations
  left, \<open>i\<close> the loop index, \<open>rest\<close> the unread part \<^verbatim>\<open>s[start:]\<close>; the
  result is what the builder holds at the end, from this iteration on.
  \<^verbatim>\<open>
  for i := 0; i < n; i++ {
      j := start
      if len(old) == 0 {
          if i > 0 { _, wid := utf8.DecodeRuneInString(s[start:]); j += wid }
      } else {
          j += Index(s[start:], old)
      }
      b.WriteString(s[start:j]); b.WriteString(new)
      start = j + len(old)
  }
  b.WriteString(s[start:])
  \<close>
  The loop runs at most \<^verbatim>\<open>Count(s, old)\<close> times, so \<^verbatim>\<open>Index\<close> finds an instance in
  every iteration (lemma \<open>count_loop_Suc_Index\<close> below); the branch \<open>None\<close> is
  never taken.
\<close>

fun replace_loop :: "nat \<Rightarrow> nat \<Rightarrow> string \<Rightarrow> string \<Rightarrow> string \<Rightarrow> string" where
  "replace_loop 0 i rest old new = rest"
| "replace_loop (Suc k) i rest old new =
     (let j = (if old = [] then (if 0 < i then rune_width rest else 0)
               else (case strings_Index rest old of Some x \<Rightarrow> x | None \<Rightarrow> length rest))
      in take j rest @ new @ replace_loop k (Suc i) (drop (j + length old) rest) old new)"

text \<open>
  \<^verbatim>\<open>strings.Replace(s, old, new, n)\<close>: a copy of \<^verbatim>\<open>s\<close> with the first \<^verbatim>\<open>n\<close>
  non-overlapping instances of \<^verbatim>\<open>old\<close> replaced by \<^verbatim>\<open>new\<close>; no limit when
  \<^verbatim>\<open>n < 0\<close>.
\<close>

definition strings_Replace :: "string \<Rightarrow> string \<Rightarrow> string \<Rightarrow> int \<Rightarrow> string" where
  "strings_Replace s old new n =
     (if old = new \<or> n = 0 then s
      else
        (let m = strings_Count s old in
         if m = 0 then s
         else replace_loop (if n < 0 \<or> int m < n then m else nat n) 0 s old new))"

subsection \<open>Strings that can share a position\<close>

text \<open>\<open>overlaps a b\<close>: some non-empty end of \<open>a\<close> is a beginning of \<open>b\<close>, so that
  an instance of \<open>a\<close> can run into an instance of \<open>b\<close> that follows it.\<close>

definition overlaps :: "string \<Rightarrow> string \<Rightarrow> bool" where
  "overlaps a b = list_ex (\<lambda>u. u \<noteq> [] \<and> prefix u b) (suffixes a)"

text \<open>\<open>clear_of a b\<close>: an instance of \<open>a\<close> and an instance of \<open>b\<close> can never
  share a position of a string: neither is a substring of the other, and no non-empty
  end of one is a beginning of the other.\<close>

definition clear_of :: "string \<Rightarrow> string \<Rightarrow> bool" where
  "clear_of a b \<longleftrightarrow> \<not> sublist a b \<and> \<not> sublist b a \<and> \<not> overlaps a b \<and> \<not> overlaps b a"

subsection \<open>strings.Join, fmt.Sprintf, filepath.Base\<close>

fun strings_Join :: "string list \<Rightarrow> string \<Rightarrow> string" where
  "strings_Join [] sep = []"
| "strings_Join [a] sep = a"
| "strings_Join (a # b # elems) sep = a @ sep @ strings_Join (b # elems) sep"

text \<open>Decimal rendering of an integer, as the verb \<^verbatim>\<open>%d\<close> prints it.\<close>

fun nat_dec :: "nat \<Rightarrow> string" where
  "nat_dec n =
     (if n < 10 then [''0123456789'' ! n]
      else nat_dec (n div 10) @ [''0123456789'' ! (n mod 10)])"

declare nat_dec.simps [simp del]

definition fmt_d :: "int \<Rightarrow> string" where
  "fmt_d n = (if n < 0 then CHR ''-'' # nat_dec (nat (- n)) else nat_dec (nat n))"

datatype fmt_arg = StrArg string | IntArg int

text \<open>An operand under a verb that does not apply to it: \<^verbatim>\<open>%!verb(type=value)\<close>.\<close>

fun bad_verb :: "char \<Rightarrow> fmt_arg \<Rightarrow> string" where
  "bad_verb v (StrArg x) = ''%!'' @ [v] @ ''(string='' @ x @ '')''"
| "bad_verb v (IntArg n) = ''%!'' @ [v] @ ''(int='' @ fmt_d n @ '')''"

fun fmt_verb :: "char \<Rightarrow> fmt_arg \<Rightarrow> string" where
  "fmt_verb v (StrArg x) = (if v = CHR ''s'' then x else bad_verb v (StrArg x))"
| "fmt_verb v (IntArg n) = (if v = CHR ''d'' then fmt_d n else bad_verb v (IntArg n))"

fun fmt_extra :: "fmt_arg \<Rightarrow> string" where
  "fmt_extra (StrArg x) = ''string='' @ x"
| "fmt_extra (IntArg n) = ''int='' @ fmt_d n"

text \<open>
  \<^verbatim>\<open>fmt.Sprintf\<close> on the fragment this package uses: literal text, \<^verbatim>\<open>%%\<close>, and the
  verbs \<^verbatim>\<open>%s\<close> (string operand) and \<^verbatim>\<open>%d\<close> (int operand) without flags or
  width. Operands are copied as they are: nothing in an operand is read as a directive.
  Missing, surplus and ill-typed operands are rendered the way Go reports them; other
  verbs, flags and widths are outside the model.
\<close>

fun fmt_Sprintf :: "string \<Rightarrow> fmt_arg list \<Rightarrow> string" where
  "fmt_Sprintf [] [] = []"
| "fmt_Sprintf [] (a # as) =
     ''%!(EXTRA '' @ strings_Join (map fmt_extra (a # as)) '', '' @ '')''"
| "fmt_Sprintf [c] as =
     (if c = CHR ''%'' then ''%!(NOVERB)'' @ fmt_Sprintf [] as else c # fmt_Sprintf [] as)"
| "fmt_Sprintf (c # v # format) as =
     (if c \<noteq> CHR ''%'' then c # fmt_Sprintf (v # format) as
      else if v = CHR ''%'' then CHR ''%'' # fmt_Sprintf format as
      else case as of
             [] \<Rightarrow> ''%!'' @ [v] @ ''(MISSING)'' @ fmt_Sprintf format []
           | a # as' \<Rightarrow> fmt_verb v a @ fmt_Sprintf format as')"

text \<open>
  \<^verbatim>\<open>filepath.Base\<close> with \<^verbatim>\<open>/\<close> as the separator: the last element of the path,
  trailing separators removed first; \<^verbatim>\<open>.\<close> for the empty path, \<^verbatim>\<open>/\<close> for a path
  of separators only.
\<close>

definition filepath_Base :: "string \<Rightarrow> string" where
  "filepath_Base path =
     (if path = [] then ''.''
      else
        (let stripped = rev (dropWhile (\<lambda>c. c = CHR ''/'') (rev path));
             elem = rev (takeWhile (\<lambda>c. c \<noteq> CHR ''/'') (rev stripped))
         in if elem = [] then ''/'' else elem))"

section \<open>The configuration: rules, allowlists, options\<close>

text \<open>
  Rules, allowlists and options belong to other packages (\<^verbatim>\<open>config\<close>,
  \<^verbatim>\<open>options\<close>); the scanners use them through the methods below. Each method is a parameter of the model:
  a field that holds the function the method computes. \<^verbatim>\<open>rule.File.String()\<close> and
  \<^verbatim>\<open>rule.Path.String()\<close> are the texts of the two scoping patterns of a rule, empty
  when the rule has no such scope.
\<close>

record AllowList =
  FileAllowed :: "string \<Rightarrow> bool"
  PathAllowed :: "string \<Rightarrow> bool"
  RegexAllowed :: "string \<Rightarrow> bool"
  RepoAllowed :: "string \<Rightarrow> bool"

record Rule =
  Description :: string
  Inspect :: "string \<Rightarrow> string"
  Tags :: "string list"
  AllowList :: AllowList
  File :: string
  Path :: string
  HasFileLeak :: "string \<Rightarrow> bool"
  HasFilePathLeak :: "string \<Rightarrow> bool"
  HasFileOrPathLeakOnly :: "string \<Rightarrow> bool"

record Config =
  Rules :: "Rule list"
  Allowlist :: AllowList

record Options =
  Path :: string
  Verbose :: bool
  Redact :: bool
  RepoConfigPath :: string

text \<open>The scanner types are constants declared in another file of the package; they
  are taken as distinct tags.\<close>

datatype ScannerType =
  typeUnset | typeRepoScanner | typeDirScanner | typeNoGitScanner

record BaseScanner =
  opts :: Options
  cfg :: Config
  scannerType :: ScannerType

section \<open>Leaks\<close>

text \<open>\<^verbatim>\<open>time.Time\<close> is kept opaque: an instant, \<open>Time 0\<close> standing for the zero value.\<close>

datatype Time = Time int

record Leak =
  Line :: string
  LineNumber :: int
  Offender :: string
  Commit :: string
  Repo :: string
  RepoURL :: string
  LeakURL :: string
  Rule :: string
  Message :: string
  Author :: string
  Email :: string
  File :: string
  Date :: Time
  Tags :: string

text \<open>
  \<^verbatim>\<open>RedactLeak\<close> receives the struct by value, works on its own copy and returns it.
  The right-hand side reads the offender of the argument, before it is overwritten.
\<close>

definition RedactLeak :: "Leak \<Rightarrow> Leak" where
  "RedactLeak leak =
     leak\<lparr>Line := strings_Replace (Line leak) (Offender leak) ''REDACTED'' (- 1),
          Offender := ''REDACTED''\<rparr>"

definition NewLeak :: "string \<Rightarrow> string \<Rightarrow> int \<Rightarrow> Leak" where
  "NewLeak line offender lineNumber =
     \<lparr>Line = line, LineNumber = lineNumber, Offender = offender, Commit = [], Repo = [],
      RepoURL = [], LeakURL = [], Rule = [], Message = [], Author = [], Email = [],
      File = [], Date = Time 0, Tags = []\<rparr>"

text \<open>
  \<^verbatim>\<open>Leak.Log\<close> prints the indented JSON of the leak, redacted first when asked. The
  model returns the leak that is serialised; the JSON text itself is not modelled.
\<close>

definition Log :: "Leak \<Rightarrow> bool \<Rightarrow> Leak" where
  "Log leak redact = (if redact then RedactLeak leak else leak)"

definition URL :: "Leak \<Rightarrow> string" where
  "URL leak =
     (if RepoURL leak \<noteq> []
      then fmt_Sprintf ''%s/blob/%s/%s#L%d''
             [StrArg (RepoURL leak), StrArg (Commit leak), StrArg (File leak),
              IntArg (LineNumber leak)]
      else [])"

section \<open>NoGitScanner\<close>

text \<open>\<^verbatim>\<open>NoGitScanner\<close> is a struct whose only member is the embedded \<^verbatim>\<open>BaseScanner\<close>.\<close>

type_synonym NoGitScanner = BaseScanner

datatype log_entry = LogError error | LogWarn error | LogDebug string

text \<open>
  \<^verbatim>\<open>NewNoGitScanner\<close>. \<^verbatim>\<open>Allowlist.IgnoreDotGit\<close> is a method of the \<^verbatim>\<open>config\<close>
  package that extends the allowlist in place or returns an error; it is the parameter
  \<open>IgnoreDotGit\<close>. The result is the log output and the returned pointer, \<open>None\<close>
  for \<^verbatim>\<open>nil\<close>.
\<close>

definition NewNoGitScanner ::
  "(AllowList \<Rightarrow> error + AllowList) \<Rightarrow> BaseScanner \<Rightarrow> log_entry list \<times> NoGitScanner option" where
  "NewNoGitScanner IgnoreDotGit base =
     (let ngs = base\<lparr>scannerType := typeNoGitScanner\<rparr> in
      case IgnoreDotGit (Allowlist (cfg ngs)) of
        Inl err \<Rightarrow> ([LogError err], None)
      | Inr allowlist \<Rightarrow> ([], Some (ngs\<lparr>cfg := (cfg ngs)\<lparr>Allowlist := allowlist\<rparr>\<rparr>)))"

text \<open>
  What a matching task does with a leak: print it when \<^verbatim>\<open>opts.Verbose\<close> is set, then
  send it on the channel \<^verbatim>\<open>leaks\<close>. A task's effects are the list of these, in order.
\<close>

datatype effect = Stdout Leak | Send Leak

definition emit :: "Options \<Rightarrow> Leak \<Rightarrow> effect list" where
  "emit options leak =
     (if Verbose options then [Stdout (Log leak (Redact options))] else []) @ [Send leak]"

fun sent :: "effect list \<Rightarrow> Leak list" where
  "sent [] = []"
| "sent (Stdout leak # es) = sent es"
| "sent (Send leak # es) = leak # sent es"

text \<open>The body of the first loop over the rules: a leak for a rule that matches on the
  file name or path alone. \<open>defaultLineNumber\<close> is a constant of the package declared
  in another file, a parameter here.\<close>

definition file_or_path_leak :: "NoGitScanner \<Rightarrow> int \<Rightarrow> string \<Rightarrow> Rule \<Rightarrow> effect list" where
  "file_or_path_leak ngs defaultLineNumber p rule =
     (if HasFileOrPathLeakOnly rule p
      then emit (opts ngs)
             ((NewLeak [] (''Filename or path offender: '' @ p) defaultLineNumber)
                \<lparr>Leak.File := p, Rule := Description rule,
                 Leak.Tags := strings_Join (Rule.Tags rule) '', ''\<rparr>)
      else [])"

fun file_or_path_leaks :: "NoGitScanner \<Rightarrow> int \<Rightarrow> string \<Rightarrow> Rule list \<Rightarrow> effect list" where
  "file_or_path_leaks ngs defaultLineNumber p [] = []"
| "file_or_path_leaks ngs defaultLineNumber p (rule # rules) =
     file_or_path_leak ngs defaultLineNumber p rule
       @ file_or_path_leaks ngs defaultLineNumber p rules"

text \<open>The body of the loop over the rules for one line of the file; every
  \<^verbatim>\<open>continue\<close> is a branch with no effect.\<close>

definition inspect_line ::
  "NoGitScanner \<Rightarrow> int \<Rightarrow> string \<Rightarrow> int \<Rightarrow> string \<Rightarrow> Rule \<Rightarrow> effect list" where
  "inspect_line ngs defaultLineNumber p lineNumber line rule =
     (let offender = Inspect rule line in
      if offender = [] then []
      else if RegexAllowed (Allowlist (cfg ngs)) line
              \<or> FileAllowed (AllowList rule) (filepath_Base p)
              \<or> PathAllowed (AllowList rule) p then []
      else if Rule.File rule \<noteq> [] \<and> \<not> HasFileLeak rule (filepath_Base p) then []
      else if Rule.Path rule \<noteq> [] \<and> \<not> HasFilePathLeak rule p then []
      else emit (opts ngs)
             ((NewLeak line offender defaultLineNumber)
                \<lparr>Leak.File := p, LineNumber := lineNumber, Rule := Description rule,
                 Leak.Tags := strings_Join (Rule.Tags rule) '', ''\<rparr>))"

fun inspect_rules ::
  "NoGitScanner \<Rightarrow> int \<Rightarrow> string \<Rightarrow> int \<Rightarrow> string \<Rightarrow> Rule list \<Rightarrow> effect list" where
  "inspect_rules ngs defaultLineNumber p lineNumber line [] = []"
| "inspect_rules ngs defaultLineNumber p lineNumber line (rule # rules) =
     inspect_line ngs defaultLineNumber p lineNumber line rule
       @ inspect_rules ngs defaultLineNumber p lineNumber line rules"

text \<open>The loop \<^verbatim>\<open>for scanner.Scan()\<close>: \<open>lineNumber\<close> is the counter before the
  line is read, \<open>lines\<close> the lines still to come.\<close>

fun scan_lines ::
  "NoGitScanner \<Rightarrow> int \<Rightarrow> string \<Rightarrow> int \<Rightarrow> string list \<Rightarrow> effect list" where
  "scan_lines ngs defaultLineNumber p lineNumber [] = []"
| "scan_lines ngs defaultLineNumber p lineNumber (line # lines) =
     inspect_rules ngs defaultLineNumber p (lineNumber + 1) line (Rules (cfg ngs))
       @ scan_lines ngs defaultLineNumber p (lineNumber + 1) lines"

text \<open>
  The file system, as the task sees it: \<open>Open p\<close> is the error of \<^verbatim>\<open>os.Open(p)\<close> or
  the lines that the \<^verbatim>\<open>bufio.Scanner\<close> on the opened file yields, \<open>Close p\<close> the
  result of closing it.
\<close>

record FileSystem =
  Open :: "string \<Rightarrow> error + string list"
  Close :: "string \<Rightarrow> error option"

text \<open>The matching task started for the path \<open>p\<close>: its effects and the error it
  returns to the group.\<close>

definition scan_file ::
  "FileSystem \<Rightarrow> NoGitScanner \<Rightarrow> int \<Rightarrow> string \<Rightarrow> effect list \<times> error option" where
  "scan_file fs ngs defaultLineNumber p =
     (if FileAllowed (Allowlist (cfg ngs)) (filepath_Base p)
         \<or> PathAllowed (Allowlist (cfg ngs)) p
      then ([], None)
      else
        (let found = file_or_path_leaks ngs defaultLineNumber p (Rules (cfg ngs)) in
         case Open fs p of
           Inl err \<Rightarrow> (found, Some err)
         | Inr lines \<Rightarrow> (found @ scan_lines ngs defaultLineNumber p 0 lines, Close fs p)))"

section \<open>ParentScanner\<close>

record FileInfo =
  Name :: string
  IsDir :: bool

text \<open>A handle on an opened repository, opaque to the scanner; the model keeps the path
  it was opened from.\<close>

datatype Repository = Repository string

record Report =
  Leaks :: "Leak list"
  Commits :: int

text \<open>
  The collaborators of \<^verbatim>\<open>ParentScanner.Scan\<close>, all from other packages or files:
  \<^verbatim>\<open>ioutil.ReadDir\<close>, \<^verbatim>\<open>filepath.Join\<close>, \<^verbatim>\<open>git.PlainOpen\<close>,
  \<^verbatim>\<open>config.LoadRepoConfig\<close>, and \<open>RepoScan base repo name\<close> for
  \<^verbatim>\<open>NewRepoScanner(base, repo)\<close> with \<^verbatim>\<open>repoName\<close> set to \<open>name\<close>, followed by its
  \<^verbatim>\<open>Scan()\<close>.
\<close>

record Env =
  ReadDir :: "string \<Rightarrow> error + FileInfo list"
  filepath_Join :: "string \<Rightarrow> string \<Rightarrow> string"
  PlainOpen :: "string \<Rightarrow> error + Repository"
  LoadRepoConfig :: "Repository \<Rightarrow> string \<Rightarrow> error + Config"
  RepoScan :: "BaseScanner \<Rightarrow> Repository \<Rightarrow> string \<Rightarrow> error + Report"

text \<open>The state of the scan: the scanner \<^verbatim>\<open>ds\<close> (its configuration is assigned to in
  the loop), the report under construction and the log written so far.\<close>

record ParentState =
  ds :: BaseScanner
  scannerReport :: Report
  logged :: "log_entry list"

definition load_repo_config :: "Env \<Rightarrow> ParentState \<Rightarrow> Repository \<Rightarrow> ParentState" where
  "load_repo_config env st repo =
     (if RepoConfigPath (opts (ds st)) \<noteq> []
      then (case LoadRepoConfig env repo (RepoConfigPath (opts (ds st))) of
              Inl err \<Rightarrow> st\<lparr>logged := logged st @ [LogWarn err]\<rparr>
            | Inr c \<Rightarrow> st\<lparr>ds := (ds st)\<lparr>cfg := c\<rparr>\<rparr>)
      else st)"

text \<open>\<^verbatim>\<open>Report.Commits\<close> is a Go \<^verbatim>\<open>int\<close>, 64 bits wide on the platforms the
  scanner is built for; \<^verbatim>\<open>+=\<close> wraps around in two's complement.\<close>

definition wrap_int64 :: "int \<Rightarrow> int" where
  "wrap_int64 x = (x + 2 ^ 63) mod 2 ^ 64 - 2 ^ 63"

definition add_report :: "ParentState \<Rightarrow> Report \<Rightarrow> ParentState" where
  "add_report st repoReport =
     st\<lparr>scannerReport :=
          \<lparr>Leaks = Leaks (scannerReport st) @ Leaks repoReport,
           Commits = wrap_int64 (Commits (scannerReport st) + Commits repoReport)\<rparr>\<rparr>"

text \<open>The loop over the directory entries; the result is the state at the
  \<^verbatim>\<open>return\<close> and the error returned.\<close>

fun scan_dirs :: "Env \<Rightarrow> ParentState \<Rightarrow> FileInfo list \<Rightarrow> ParentState \<times> error option" where
  "scan_dirs env st [] = (st, None)"
| "scan_dirs env st (f # files) =
     (if \<not> IsDir f then scan_dirs env st files
      else
        case PlainOpen env (filepath_Join env (Options.Path (opts (ds st))) (Name f)) of
          Inl err \<Rightarrow>
            if error_message err = ''repository does not exist''
            then scan_dirs env
                   (st\<lparr>logged := logged st @ [LogDebug (Name f @ '' is not a git repository'')]\<rparr>)
                   files
            else (st, Some err)
        | Inr repo \<Rightarrow>
            if RepoAllowed (Allowlist (cfg (ds st))) (Name f) then scan_dirs env st files
            else
              (let st' = load_repo_config env st repo in
               case RepoScan env (ds st') repo (Name f) of
                 Inl err \<Rightarrow> (st', Some err)
               | Inr repoReport \<Rightarrow> scan_dirs env (add_report st' repoReport) files))"

text \<open>\<^verbatim>\<open>ParentScanner\<close> too is a struct around the embedded \<^verbatim>\<open>BaseScanner\<close>.\<close>

definition NewParentScanner :: "BaseScanner \<Rightarrow> BaseScanner" where
  "NewParentScanner base = base\<lparr>scannerType := typeDirScanner\<rparr>"

text \<open>\<^verbatim>\<open>ParentScanner.Scan\<close>: the debug line, the listing of the directory, the loop.\<close>

definition ParentScanner_Scan :: "Env \<Rightarrow> BaseScanner \<Rightarrow> ParentState \<times> error option" where
  "ParentScanner_Scan env base =
     (let st = \<lparr>ds = base, scannerReport = \<lparr>Leaks = [], Commits = 0\<rparr>,
                logged = [LogDebug (''scanning repos in '' @ Options.Path (opts base) @ [CHR 0x0A])]\<rparr>
      in case ReadDir env (Options.Path (opts base)) of
           Inl err \<Rightarrow> (st, Some err)
         | Inr files \<Rightarrow> scan_dirs env st files)"

section \<open>A concrete configuration\<close>

text \<open>A scanner with two rules, one on content and one on the path alone, a global
  allowlist that allows one file name, and a file of two lines.\<close>

definition allow_none :: AllowList where
  "allow_none =
     \<lparr>FileAllowed = (\<lambda>name. False), PathAllowed = (\<lambda>path. False),
      RegexAllowed = (\<lambda>line. False), RepoAllowed = (\<lambda>name. False)\<rparr>"

definition key_rule :: Rule where
  "key_rule =
     \<lparr>Description = ''AWS key'',
      Inspect = (\<lambda>line. if sublist ''AKIA'' line then ''AKIA'' else []),
      Rule.Tags = [''key'', ''AWS''],
      AllowList = allow_none,
      Rule.File = [], Rule.Path = [],
      HasFileLeak = (\<lambda>name. False), HasFilePathLeak = (\<lambda>path. False),
      HasFileOrPathLeakOnly = (\<lambda>path. False)\<rparr>"

definition pem_rule :: Rule where
  "pem_rule =
     \<lparr>Description = ''PEM file'',
      Inspect = (\<lambda>line. []),
      Rule.Tags = [''file''],
      AllowList = allow_none,
      Rule.File = ''pem'', Rule.Path = [],
      HasFileLeak = (\<lambda>name. False), HasFilePathLeak = (\<lambda>path. False),
      HasFileOrPathLeakOnly = (\<lambda>path. suffix ''.pem'' path)\<rparr>"

definition example_scanner :: NoGitScanner where
  "example_scanner =
     \<lparr>opts = \<lparr>Options.Path = ''/src'', Verbose = False, Redact = False, RepoConfigPath = []\<rparr>,
      cfg = \<lparr>Rules = [key_rule, pem_rule],
             Allowlist = allow_none\<lparr>FileAllowed := (\<lambda>name. name = ''fixture.txt'')\<rparr>\<rparr>,
      scannerType = typeNoGitScanner\<rparr>"

definition example_fs :: FileSystem where
  "example_fs = \<lparr>Open = (\<lambda>path. Inr [''x = 1'', ''key=AKIA12'']), Close = (\<lambda>path. None)\<rparr>"

text \<open>A parent directory with four entries: a plain file, a directory that is not a
  repository, a repository with a configuration of its own, and a directory that
  cannot be opened. The stand-in for the repository scan reports as many commits as
  the configuration it is given has rules, so that the configuration in use shows in
  the report.\<close>

definition repo_config :: Config where
  "repo_config = \<lparr>Rules = [key_rule], Allowlist = allow_none\<rparr>"

definition example_env :: Env where
  "example_env =
     \<lparr>ReadDir = (\<lambda>path. Inr [\<lparr>Name = ''README'', IsDir = False\<rparr>, \<lparr>Name = ''notes'', IsDir = True\<rparr>,
                             \<lparr>Name = ''app'', IsDir = True\<rparr>, \<lparr>Name = ''locked'', IsDir = True\<rparr>]),
      filepath_Join = (\<lambda>dir name. dir @ ''/'' @ name),
      PlainOpen = (\<lambda>path. if path = ''/src/notes'' then Inl (Error ''repository does not exist'')
                           else if path = ''/src/locked'' then Inl (Error ''permission denied'')
                           else Inr (Repository path)),
      LoadRepoConfig = (\<lambda>repo path. if repo = Repository ''/src/app'' then Inr repo_config
                                      else Inl (Error ''no configuration'')),
      RepoScan = (\<lambda>base repo name. Inr \<lparr>Leaks = [], Commits = int (length (Rules (cfg base)))\<rparr>)\<rparr>"

definition example_state :: ParentState where
  "example_state =
     \<lparr>ds = example_scanner\<lparr>opts := (opts example_scanner)\<lparr>RepoConfigPath := ''.gitleaks.toml''\<rparr>,
                           scannerType := typeDirScanner\<rparr>,
      scannerReport = \<lparr>Leaks = [], Commits = 0\<rparr>,
      logged = []\<rparr>"

text \<open>An extension of the allowlist that succeeds, and two that fail.\<close>

definition ignore_dot_git :: "AllowList \<Rightarrow> error + AllowList" where
  "ignore_dot_git a = Inr (a\<lparr>PathAllowed := (\<lambda>path. PathAllowed a path \<or> sublist ''.git'' path)\<rparr>)"

definition ignore_fails_syntax :: "AllowList \<Rightarrow> error + AllowList" where
  "ignore_fails_syntax a = Inl (Error ''error parsing regexp'')"

definition ignore_fails_memory :: "AllowList \<Rightarrow> error + AllowList" where
  "ignore_fails_memory a = Inl (Error ''out of memory'')"

section \<open>Properties of the string functions\<close>

lemma strings_Replace_same: "strings_Replace s old old n = s"
  by (simp add: strings_Replace_def)

lemma overlaps_iff: "overlaps a b \<longleftrightarrow> (\<exists>u. u \<noteq> [] \<and> suffix u a \<and> prefix u b)"
  by (auto simp: overlaps_def list_ex_iff)

lemma strings_Index_None_iff: "strings_Index s substr = None \<longleftrightarrow> \<not> sublist substr s"
  by (induction s) (auto simp: sublist_Cons_right)

lemma strings_Index_prefix: "prefix substr s \<Longrightarrow> strings_Index s substr = Some 0"
  by (cases s) simp_all

lemma strings_Index_split:
  "strings_Index s substr = Some i \<Longrightarrow> s = take i s @ substr @ drop (i + length substr) s"
proof (induction s arbitrary: i)
  case Nil
  then show ?case by (simp split: if_splits)
next
  case (Cons c cs)
  show ?case
  proof (cases "prefix substr (c # cs)")
    case True
    then obtain zs where zs: "c # cs = substr @ zs" by (auto simp: prefix_def)
    from True Cons.prems have "i = 0" by simp
    with zs show ?thesis by simp
  next
    case False
    with Cons.prems obtain k where k: "strings_Index cs substr = Some k" "i = Suc k"
      by auto
    from Cons.IH [OF k(1)] k(2) show ?thesis by simp
  qed
qed

lemma strings_Index_leftmost:
  "strings_Index (xs @ substr @ ys) substr = Some i \<Longrightarrow> i \<le> length xs"
proof (induction xs arbitrary: i)
  case Nil
  then show ?case by (simp add: strings_Index_prefix)
next
  case (Cons x xs)
  then show ?case by (auto split: if_splits)
qed

lemma strings_Index_before:
  assumes "strings_Index s substr = Some i" and "substr \<noteq> []"
  shows "\<not> sublist substr (take i s)"
proof
  assume "sublist substr (take i s)"
  then obtain ps ss where ps: "take i s = ps @ substr @ ss"
    by (auto simp: sublist_def)
  have "s = take i s @ drop i s" by simp
  then have s: "s = ps @ substr @ (ss @ drop i s)"
    unfolding ps by simp
  have "i \<le> length ps"
    using strings_Index_leftmost [of ps substr "ss @ drop i s" i] assms(1) s by simp
  moreover have "length ps + length substr \<le> i"
    using arg_cong [OF ps, of length] by simp
  ultimately show False using assms(2) by (cases substr) auto
qed

lemma count_loop_add: "count_loop s substr (n + m) = n + count_loop s substr m"
proof (induction s substr m arbitrary: n rule: count_loop.induct)
  case (1 s substr m)
  show ?case
  proof (cases "substr = []")
    case True
    then show ?thesis by (simp add: count_loop.simps)
  next
    case False
    show ?thesis
    proof (cases "strings_Index s substr")
      case None
      with False show ?thesis by (simp add: count_loop.simps)
    next
      case (Some i)
      have "count_loop s substr (n + m) = count_loop (drop (i + length substr) s) substr (n + Suc m)"
        using False Some by (simp add: count_loop.simps [of s])
      also have "\<dots> = n + count_loop (drop (i + length substr) s) substr (Suc m)"
        by (rule "1.IH" [OF False Some])
      also have "\<dots> = n + count_loop s substr m"
        using False Some by (simp add: count_loop.simps [of s])
      finally show ?thesis .
    qed
  qed
qed

lemma count_loop_Index_None:
  "strings_Index s substr = None \<Longrightarrow> count_loop s substr n = n"
  by (simp add: count_loop.simps)

text \<open>Every iteration of the replacement loop finds an instance.\<close>

lemma count_loop_Suc_Index:
  assumes "substr \<noteq> []" and "count_loop s substr 0 = Suc k"
  shows "\<exists>i. strings_Index s substr = Some i
             \<and> count_loop (drop (i + length substr) s) substr 0 = k"
proof (cases "strings_Index s substr")
  case None
  with assms show ?thesis by (simp add: count_loop.simps)
next
  case (Some i)
  have "count_loop s substr 0 = count_loop (drop (i + length substr) s) substr (1 + 0)"
    using assms(1) Some by (simp add: count_loop.simps [of s])
  also have "\<dots> = 1 + count_loop (drop (i + length substr) s) substr 0"
    by (rule count_loop_add)
  finally show ?thesis using assms(2) Some by simp
qed

lemma replace_loop_index:
  "old \<noteq> [] \<Longrightarrow> replace_loop k i rest old new = replace_loop k i' rest old new"
  by (induction k arbitrary: i i' rest) (simp_all add: Let_def)

text \<open>With a non-empty \<^verbatim>\<open>old\<close> and no limit, \<^verbatim>\<open>Replace\<close> replaces the first instance
  and goes on behind it.\<close>

lemma strings_Replace_unfold:
  assumes "old \<noteq> []" and "old \<noteq> new"
  shows "strings_Replace s old new (- 1) =
           (case strings_Index s old of
              None \<Rightarrow> s
            | Some j \<Rightarrow> take j s @ new @ strings_Replace (drop (j + length old) s) old new (- 1))"
proof (cases "strings_Index s old")
  case None
  with assms show ?thesis
    by (simp add: strings_Replace_def strings_Count_def count_loop_Index_None)
next
  case (Some j)
  let ?rest = "drop (j + length old) s"
  have count: "count_loop s old 0 = Suc (count_loop ?rest old 0)"
    using assms(1) Some count_loop_add [of ?rest old 1 0] by (simp add: count_loop.simps [of s])
  have rest: "strings_Replace ?rest old new (- 1)
                = replace_loop (count_loop ?rest old 0) (Suc 0) ?rest old new"
    using assms replace_loop_index [of old "count_loop ?rest old 0" 0 ?rest new "Suc 0"]
    by (cases "count_loop ?rest old 0") (simp_all add: strings_Replace_def strings_Count_def Let_def)
  have "strings_Replace s old new (- 1)
          = take j s @ new @ replace_loop (count_loop ?rest old 0) (Suc 0) ?rest old new"
    using assms Some by (simp add: strings_Replace_def strings_Count_def count Let_def)
  also have "\<dots> = take j s @ new @ strings_Replace ?rest old new (- 1)"
    by (simp only: rest)
  finally show ?thesis
    using Some by simp
qed

lemma strings_Replace_absent:
  assumes "old \<noteq> []" and "\<not> sublist old s"
  shows "strings_Replace s old new n = s"
  using assms
  by (simp add: strings_Replace_def strings_Count_def count_loop_Index_None strings_Index_None_iff)

text \<open>An instance of \<open>xs\<close> in \<open>a @ m @ b\<close> that lies neither in \<open>a\<close> nor in
  \<open>b\<close> shares at least one position with \<open>m\<close>.\<close>

lemma sublist_around:
  assumes "sublist xs (a @ m @ b)" and "\<not> sublist xs a" and "\<not> sublist xs b"
  shows "sublist xs m \<or> sublist m xs \<or> overlaps xs m \<or> overlaps m xs"
proof -
  have inner: "sublist xs m \<or> overlaps m xs" if "sublist xs (m @ b)"
  proof -
    from that assms(3) consider "sublist xs m"
      | u v where "xs = u @ v" "suffix u m" "prefix v b"
      by (auto simp: sublist_append)
    then show ?thesis
    proof cases
      case 1
      then show ?thesis by simp
    next
      case 2
      show ?thesis
      proof (cases "u = []")
        case True
        with 2 assms(3) show ?thesis by auto
      next
        case False
        with 2 have "u \<noteq> [] \<and> suffix u m \<and> prefix u xs" by simp
        then show ?thesis unfolding overlaps_iff by blast
      qed
    qed
  qed
  from assms(1,2) consider "sublist xs (m @ b)"
    | u v where "xs = u @ v" "suffix u a" "prefix v (m @ b)"
    by (auto simp: sublist_append)
  then show ?thesis
  proof cases
    case 1
    with inner show ?thesis by blast
  next
    case 2
    show ?thesis
    proof (cases "v = []")
      case True
      with 2 assms(2) show ?thesis by auto
    next
      case False
      from 2(3) consider "prefix v m" | w where "v = m @ w"
        by (auto simp: prefix_append)
      then show ?thesis
      proof cases
        case 1
        with False 2(1) have "v \<noteq> [] \<and> suffix v xs \<and> prefix v m" by (simp add: suffix_def)
        then show ?thesis unfolding overlaps_iff by blast
      next
        case 2
        with \<open>xs = u @ v\<close> have "sublist m xs" by simp
        then show ?thesis by simp
      qed
    qed
  qed
qed

text \<open>When the old string and the new one cannot share a position, no instance of the
  old string is left.\<close>

lemma strings_Replace_clears:
  assumes "old \<noteq> []" and "clear_of old new"
  shows "\<not> sublist old (strings_Replace s old new (- 1))"
proof (induction s rule: length_induct)
  case (1 s)
  have neq: "old \<noteq> new"
    using assms(2) by (auto simp: clear_of_def)
  show ?case
  proof (cases "strings_Index s old")
    case None
    then have "\<not> sublist old s"
      by (simp add: strings_Index_None_iff)
    then show ?thesis
      by (simp add: strings_Replace_absent [OF assms(1)])
  next
    case (Some j)
    let ?rest = "drop (j + length old) s"
    have "length ?rest < length s"
      using strings_Index_bound [OF Some] assms(1) by (cases old) auto
    with 1 have rest: "\<not> sublist old (strings_Replace ?rest old new (- 1))"
      by blast
    have before: "\<not> sublist old (take j s)"
      by (rule strings_Index_before [OF Some assms(1)])
    have eq: "strings_Replace s old new (- 1)
                = take j s @ new @ strings_Replace ?rest old new (- 1)"
      using Some by (simp add: strings_Replace_unfold [OF assms(1) neq, of s])
    show ?thesis
      unfolding eq using sublist_around [OF _ before rest] assms(2)
      by (auto simp: clear_of_def)
  qed
qed

lemma runes_Nil: "runes [] = []"
  by (simp add: runes.simps)

lemma runes_step:
  "s \<noteq> [] \<Longrightarrow> runes s = take (rune_width s) s # runes (drop (rune_width s) s)"
  by (simp add: runes.simps [of s])

lemma runes_count: "utf8_RuneCountInString s = length (runes s)"
proof (induction s rule: runes.induct)
  case (1 s)
  show ?case
  proof (cases "s = []")
    case True
    then show ?thesis by (simp add: runes_Nil utf8_RuneCountInString.simps)
  next
    case False
    with "1.IH" show ?thesis
      by (simp add: runes_step utf8_RuneCountInString.simps [of s])
  qed
qed

lemma concat_runes: "concat (runes s) = s"
proof (induction s rule: runes.induct)
  case (1 s)
  show ?case
  proof (cases "s = []")
    case True
    then show ?thesis by (simp add: runes_Nil)
  next
    case False
    with "1.IH" show ?thesis by (simp add: runes_step)
  qed
qed

lemma runes_nonempty: "u \<in> set (runes s) \<Longrightarrow> u \<noteq> []"
proof (induction s rule: runes.induct)
  case (1 s)
  show ?case
  proof (cases "s = []")
    case True
    with "1.prems" show ?thesis by (simp add: runes_Nil)
  next
    case False
    with "1.prems" consider "u = take (rune_width s) s" | "u \<in> set (runes (drop (rune_width s) s))"
      by (auto simp: runes_step)
    then show ?thesis
    proof cases
      case 1
      with False rune_width_pos [of s] show ?thesis by simp
    next
      case 2
      with "1.IH" False show ?thesis by blast
    qed
  qed
qed

lemma runes_ascii:
  "\<forall>c\<in>set s. (of_char c :: nat) < 128 \<Longrightarrow> runes s = map (\<lambda>c. [c]) s"
proof (induction s)
  case Nil
  show ?case by (simp add: runes_Nil)
next
  case (Cons c s)
  then have "rune_width (c # s) = 1"
    by (simp add: rune_width_def)
  with Cons show ?case
    by (simp add: runes_step)
qed

lemma replace_loop_empty:
  "0 < i \<Longrightarrow> replace_loop (length (runes s)) i s [] new = concat (map (\<lambda>u. u @ new) (runes s))"
proof (induction s arbitrary: i rule: runes.induct)
  case (1 s)
  show ?case
  proof (cases "s = []")
    case True
    then show ?thesis by (simp add: runes_Nil)
  next
    case False
    have "replace_loop (length (runes (drop (rune_width s) s))) (Suc i) (drop (rune_width s) s) [] new
            = concat (map (\<lambda>u. u @ new) (runes (drop (rune_width s) s)))"
      by (rule "1.IH" [OF False]) simp
    with False "1.prems" show ?thesis
      by (simp add: runes_step Let_def)
  qed
qed

lemma interleave:
  "new @ concat (map (\<lambda>u. u @ new) us) = concat (map (\<lambda>u. new @ u) us) @ new"
  by (induction us) simp_all

text \<open>With the empty \<^verbatim>\<open>old\<close>, \<^verbatim>\<open>Replace\<close> puts \<^verbatim>\<open>new\<close> in front of every UTF-8
  sequence of \<^verbatim>\<open>s\<close> and at the end.\<close>

lemma strings_Replace_empty:
  assumes "new \<noteq> []"
  shows "strings_Replace s [] new (- 1) = concat (map (\<lambda>u. new @ u) (runes s)) @ new"
proof -
  have "strings_Replace s [] new (- 1) = new @ replace_loop (length (runes s)) (Suc 0) s [] new"
    using assms by (simp add: strings_Replace_def strings_Count_def runes_count)
  also have "\<dots> = new @ concat (map (\<lambda>u. u @ new) (runes s))"
    by (simp add: replace_loop_empty)
  finally show ?thesis by (simp add: interleave)
qed

lemma length_interleave:
  "length (concat (map (\<lambda>u. new @ u) us) @ new)
     = length (concat us) + length new * (length us + 1)"
  by (induction us) simp_all

section \<open>Redaction\<close>

text \<open>
  C4. \<^verbatim>\<open>RedactLeak\<close> is idempotent: for every leak \<open>r\<close>, redacting the redacted leak
  gives the redacted leak again. After the first call the offender is the marker, so
  the second call replaces the marker by itself.
\<close>

theorem RedactLeak_idempotent: "RedactLeak (RedactLeak r) = RedactLeak r"
  by (simp add: RedactLeak_def strings_Replace_same)

text \<open>
  C1, as the code has it. For every leak \<open>r\<close> with a non-empty offender,
  \<^verbatim>\<open>RedactLeak\<close> returns a leak whose offender is \<^verbatim>\<open>REDACTED\<close> and whose other
  fields, the line apart, are those of \<open>r\<close>; when the line of \<open>r\<close> does not
  contain the offender, the line is unchanged; and when the offender and the marker
  \<^verbatim>\<open>REDACTED\<close> cannot share a position (neither is a substring of the other, no
  non-empty end of one is a beginning of the other), the line of the result contains
  no instance of the offender. The argument is a value of the model and is not
  changed by the call.
\<close>

theorem RedactLeak_result:
  assumes "Offender r \<noteq> []"
  shows "RedactLeak r = r\<lparr>Line := Line (RedactLeak r), Offender := ''REDACTED''\<rparr>
         \<and> (\<not> sublist (Offender r) (Line r) \<longrightarrow> Line (RedactLeak r) = Line r)
         \<and> (clear_of (Offender r) ''REDACTED'' \<longrightarrow>
              \<not> sublist (Offender r) (Line (RedactLeak r)))"
  using assms strings_Replace_clears [of "Offender r" "''REDACTED''" "Line r"]
  by (simp add: RedactLeak_def strings_Replace_absent)

theorem RedactLeak_result_witness:
  "Offender (NewLeak ''key=AKIA12 # AKIA12'' ''AKIA12'' 3) \<noteq> []
   \<and> clear_of (Offender (NewLeak ''key=AKIA12 # AKIA12'' ''AKIA12'' 3)) ''REDACTED''
   \<and> \<not> sublist ''AKIA12'' (Line (RedactLeak (NewLeak ''key=AKIA12 # AKIA12'' ''AKIA12'' 3)))
   \<and> \<not> sublist (Offender (NewLeak ''x = 1'' ''AKIA12'' 3)) (Line (NewLeak ''x = 1'' ''AKIA12'' 3))
   \<and> Line (RedactLeak (NewLeak ''x = 1'' ''AKIA12'' 3)) = ''x = 1''"
proof -
  let ?r = "NewLeak ''key=AKIA12 # AKIA12'' ''AKIA12'' 3"
  let ?q = "NewLeak ''x = 1'' ''AKIA12'' 3"
  have r: "Offender ?r = ''AKIA12''" "Offender ?q = ''AKIA12''" "Line ?q = ''x = 1''"
    by (simp_all add: NewLeak_def)
  have clear: "clear_of ''AKIA12'' ''REDACTED''"
    by (simp add: clear_of_def overlaps_def sublist_code)
  have absent: "\<not> sublist ''AKIA12'' ''x = 1''"
    by (simp add: sublist_code)
  from RedactLeak_result [of ?r] RedactLeak_result [of ?q] r clear absent
  show ?thesis by simp
qed

text \<open>
  The claim C1 as stated fails when the offender can share a position with the marker:
  for the offender \<^verbatim>\<open>RED\<close> in the line \<^verbatim>\<open>color=RED\<close> the redacted line is
  \<^verbatim>\<open>color=REDACTED\<close>, which contains \<^verbatim>\<open>RED\<close>.
\<close>

theorem RedactLeak_offender_counterexample:
  "Offender (NewLeak ''color=RED'' ''RED'' 7) \<noteq> []
   \<and> Line (RedactLeak (NewLeak ''color=RED'' ''RED'' 7)) = ''color=REDACTED''
   \<and> sublist (Offender (NewLeak ''color=RED'' ''RED'' 7))
        (Line (RedactLeak (NewLeak ''color=RED'' ''RED'' 7)))"
proof -
  have "strings_Replace ''color=RED'' ''RED'' ''REDACTED'' (- 1) = ''color=REDACTED''"
    by (simp add: strings_Replace_def strings_Count_def count_loop.simps Let_def)
  then show ?thesis
    by (simp add: RedactLeak_def NewLeak_def sublist_code)
qed

text \<open>
  C10. For every leak \<open>r\<close> whose offender is empty, \<^verbatim>\<open>RedactLeak\<close> sets the
  offender to \<^verbatim>\<open>REDACTED\<close> and puts \<^verbatim>\<open>REDACTED\<close> in front of every character of
  the line and at its end. The characters are the UTF-8 sequences of the line: they
  are non-empty and make up the line, and in a line of ASCII bytes every byte is one. The
  line grows by eight bytes for every character and eight more, so it differs from
  the original, and it still contains the (empty) offender.
\<close>

theorem RedactLeak_empty_offender:
  assumes "Offender r = []"
  shows "Offender (RedactLeak r) = ''REDACTED''
         \<and> Line (RedactLeak r) = concat (map (\<lambda>u. ''REDACTED'' @ u) (runes (Line r))) @ ''REDACTED''
         \<and> concat (runes (Line r)) = Line r
         \<and> (\<forall>u \<in> set (runes (Line r)). u \<noteq> [])
         \<and> ((\<forall>c \<in> set (Line r). (of_char c :: nat) < 128) \<longrightarrow>
               runes (Line r) = map (\<lambda>c. [c]) (Line r))
         \<and> length (Line (RedactLeak r)) = length (Line r) + 8 * (length (runes (Line r)) + 1)
         \<and> Line (RedactLeak r) \<noteq> Line r
         \<and> sublist (Offender r) (Line (RedactLeak r))"
proof -
  have line: "Line (RedactLeak r)
                = concat (map (\<lambda>u. ''REDACTED'' @ u) (runes (Line r))) @ ''REDACTED''"
    using assms by (simp add: RedactLeak_def strings_Replace_empty)
  have len: "length (Line (RedactLeak r)) = length (Line r) + 8 * (length (runes (Line r)) + 1)"
    unfolding line length_interleave by (simp add: concat_runes)
  then have "Line (RedactLeak r) \<noteq> Line r"
    by auto
  with line len assms show ?thesis
    by (simp add: RedactLeak_def concat_runes runes_nonempty runes_ascii)
qed

theorem RedactLeak_empty_offender_witness:
  "Offender (NewLeak ''ab'' [] 1) = []
   \<and> list_all (\<lambda>c. (of_char c :: nat) < 128) (Line (NewLeak ''ab'' [] 1))
   \<and> runes (Line (NewLeak ''ab'' [] 1)) = [''a'', ''b'']
   \<and> Line (RedactLeak (NewLeak ''ab'' [] 1)) = ''REDACTEDaREDACTEDbREDACTED''
   \<and> Line (RedactLeak (NewLeak [] [] 1)) = ''REDACTED''
   \<and> Line (RedactLeak (NewLeak [CHR 0xC3, CHR 0xA9, CHR ''!''] [] 1))
       = ''REDACTED'' @ [CHR 0xC3, CHR 0xA9] @ ''REDACTED!REDACTED''"
proof -
  have a: "Offender (NewLeak l [] 1) = []" "Line (NewLeak l [] 1) = l" for l
    by (simp_all add: NewLeak_def)
  have b: "\<forall>c \<in> set ''ab''. (of_char c :: nat) < 128"
    by simp
  have c: "runes [] = []" "runes [CHR 0xC3, CHR 0xA9, CHR ''!''] = [[CHR 0xC3, CHR 0xA9], ''!'']"
    by (simp_all add: runes_Nil runes_step rune_width_def)
  from RedactLeak_empty_offender [of "NewLeak ''ab'' [] 1"]
    RedactLeak_empty_offender [of "NewLeak [] [] 1"]
    RedactLeak_empty_offender [of "NewLeak [CHR 0xC3, CHR 0xA9, CHR ''!''] [] 1"]
    a b c
  show ?thesis by simp
qed

section \<open>Links to a leak\<close>

lemma fmt_Sprintf_URL:
  "fmt_Sprintf ''%s/blob/%s/%s#L%d'' [StrArg a, StrArg b, StrArg c, IntArg n]
     = a @ ''/blob/'' @ b @ ''/'' @ c @ ''#L'' @ fmt_d n"
  by simp

lemma fmt_d_42: "fmt_d 42 = ''42''"
  by (simp add: fmt_d_def nat_dec.simps)

text \<open>
  C6. For every leak \<open>r\<close>: when \<^verbatim>\<open>RepoURL\<close> is empty, \<^verbatim>\<open>URL\<close> returns the empty
  string; otherwise it returns the repository URL, \<^verbatim>\<open>/blob/\<close>, the commit, \<^verbatim>\<open>/\<close>,
  the file, \<^verbatim>\<open>#L\<close> and the line number in decimal, the three strings copied as they
  are, whatever characters they hold. For the repository
  \<^verbatim>\<open>https://github.com/org/repo\<close>, commit \<^verbatim>\<open>abc123\<close>, file \<^verbatim>\<open>a/b.go\<close> and line 42
  the result is \<^verbatim>\<open>https://github.com/org/repo/blob/abc123/a/b.go#L42\<close>.
\<close>

theorem URL_format:
  "URL r =
     (if RepoURL r = [] then []
      else RepoURL r @ ''/blob/'' @ Commit r @ ''/'' @ File r @ ''#L'' @ fmt_d (LineNumber r))
   \<and> URL ((NewLeak line offender 42)
            \<lparr>RepoURL := ''https://github.com/org/repo'', Commit := ''abc123'',
             File := ''a/b.go''\<rparr>)
       = ''https://github.com/org/repo/blob/abc123/a/b.go#L42''"
  by (simp add: URL_def fmt_Sprintf_URL NewLeak_def fmt_d_42 del: fmt_Sprintf.simps)

theorem URL_format_witness:
  "URL ((NewLeak ''k = v'' ''v'' (- 7))\<lparr>RepoURL := ''h://r?%s'', Commit := ''c d'', File := ''a#/%d''\<rparr>)
     = ''h://r?%s/blob/c d/a#/%d#L-7''
   \<and> URL (NewLeak ''k = v'' ''v'' 3) = []"
  using URL_format [of "(NewLeak ''k = v'' ''v'' (- 7))\<lparr>RepoURL := ''h://r?%s'', Commit := ''c d'', File := ''a#/%d''\<rparr>"]
        URL_format [of "NewLeak ''k = v'' ''v'' 3"]
  by (simp add: NewLeak_def fmt_d_def nat_dec.simps)

section \<open>The matching task of the NoGitScanner\<close>

lemma sent_append: "sent (es @ fs) = sent es @ sent fs"
  by (induction es rule: sent.induct) simp_all

lemma sent_emit: "sent (emit options leak) = [leak]"
  by (simp add: emit_def)

lemma inspect_rules_concat:
  "inspect_rules ngs d p n line rules = concat (map (inspect_line ngs d p n line) rules)"
  by (induction rules) simp_all

lemma file_or_path_leaks_concat:
  "file_or_path_leaks ngs d p rules = concat (map (file_or_path_leak ngs d p) rules)"
  by (induction rules) simp_all

lemma sent_concat: "sent (concat ess) = concat (map sent ess)"
  by (induction ess) (simp_all add: sent_append)

lemma scan_lines_numbering:
  "scan_lines ngs d p k lines
     = concat (map (\<lambda>(i, line). inspect_rules ngs d p (k + int i + 1) line (Rules (cfg ngs)))
                   (enumerate 0 lines))"
proof (induction lines arbitrary: k)
  case Nil
  show ?case by simp
next
  case (Cons line lines)
  show ?case
    by (simp add: Cons.IH [of "k + 1"] enumerate_Suc_eq comp_def case_prod_unfold apfst_def
        map_prod_def add.assoc)
qed

text \<open>
  C8. A file whose base name or whose path the global allowlist allows is skipped by its
  matching task: the task sends no leak and prints none, whatever the rules and the
  content of the file are, and returns no error (the file is not even opened).
\<close>

theorem allowed_file_skipped:
  assumes "FileAllowed (Allowlist (cfg ngs)) (filepath_Base p)
           \<or> PathAllowed (Allowlist (cfg ngs)) p"
  shows "scan_file fs ngs defaultLineNumber p = ([], None)"
  using assms by (simp add: scan_file_def)

theorem allowed_file_skipped_witness:
  "FileAllowed (Allowlist (cfg example_scanner)) (filepath_Base ''/src/a/fixture.txt'')
   \<and> scan_file example_fs example_scanner (- 1) ''/src/a/fixture.txt'' = ([], None)
   \<and> sent (fst (scan_file example_fs example_scanner (- 1) ''/src/a/other.txt'')) \<noteq> []"
proof -
  have allowed: "FileAllowed (Allowlist (cfg example_scanner)) (filepath_Base ''/src/a/fixture.txt'')"
    by (simp add: example_scanner_def allow_none_def filepath_Base_def)
  have skipped: "scan_file example_fs example_scanner (- 1) ''/src/a/fixture.txt'' = ([], None)"
    using allowed_file_skipped [of example_scanner "''/src/a/fixture.txt''" example_fs "- 1"] allowed
    by simp
  have other: "sent (fst (scan_file example_fs example_scanner (- 1) ''/src/a/other.txt'')) \<noteq> []"
    by (simp add: scan_file_def example_scanner_def example_fs_def allow_none_def
        filepath_Base_def key_rule_def pem_rule_def file_or_path_leak_def inspect_line_def
        sent_append sent_emit NewLeak_def Let_def sublist_code suffix_to_prefix)
  from allowed skipped other show ?thesis by simp
qed

text \<open>
  C5. For a path \<open>p\<close> and a rule that matches on the file name or path alone
  (\<^verbatim>\<open>HasFileOrPathLeakOnly\<close>), the task sends one leak whose line is empty, whose line
  number is \<^verbatim>\<open>defaultLineNumber\<close>, whose offender is the path after the text
  \<^verbatim>\<open>Filename or path offender: \<close>, whose file is the path, and which carries the rule's
  description and its tags joined by a comma and a space; every other field has its
  zero value. For a file that the global allowlist does not allow, the task's leaks
  start with these, one for each such rule of the configuration, in the order of the
  rules.
\<close>

theorem file_or_path_leak_record:
  "(HasFileOrPathLeakOnly rule p \<longrightarrow>
      sent (file_or_path_leak ngs defaultLineNumber p rule)
        = [\<lparr>Line = [], LineNumber = defaultLineNumber,
            Offender = ''Filename or path offender: '' @ p,
            Commit = [], Repo = [], RepoURL = [], LeakURL = [],
            Rule = Description rule, Message = [], Author = [], Email = [],
            File = p, Date = Time 0, Tags = strings_Join (Rule.Tags rule) '', ''\<rparr>])
   \<and> (\<not> HasFileOrPathLeakOnly rule p \<longrightarrow>
        sent (file_or_path_leak ngs defaultLineNumber p rule) = [])
   \<and> (\<not> (FileAllowed (Allowlist (cfg ngs)) (filepath_Base p)
          \<or> PathAllowed (Allowlist (cfg ngs)) p) \<longrightarrow>
        prefix (concat (map (\<lambda>rule. sent (file_or_path_leak ngs defaultLineNumber p rule))
                            (Rules (cfg ngs))))
               (sent (fst (scan_file fs ngs defaultLineNumber p))))"
proof (intro conjI impI)
  assume "HasFileOrPathLeakOnly rule p"
  then show "sent (file_or_path_leak ngs defaultLineNumber p rule)
        = [\<lparr>Line = [], LineNumber = defaultLineNumber,
            Offender = ''Filename or path offender: '' @ p,
            Commit = [], Repo = [], RepoURL = [], LeakURL = [],
            Rule = Description rule, Message = [], Author = [], Email = [],
            File = p, Date = Time 0, Tags = strings_Join (Rule.Tags rule) '', ''\<rparr>]"
    by (simp add: file_or_path_leak_def sent_emit NewLeak_def)
next
  assume "\<not> HasFileOrPathLeakOnly rule p"
  then show "sent (file_or_path_leak ngs defaultLineNumber p rule) = []"
    by (simp add: file_or_path_leak_def)
next
  assume "\<not> (FileAllowed (Allowlist (cfg ngs)) (filepath_Base p)
             \<or> PathAllowed (Allowlist (cfg ngs)) p)"
  then show "prefix (concat (map (\<lambda>rule. sent (file_or_path_leak ngs defaultLineNumber p rule))
                            (Rules (cfg ngs))))
               (sent (fst (scan_file fs ngs defaultLineNumber p)))"
    by (auto simp: scan_file_def Let_def file_or_path_leaks_concat sent_concat sent_append
        comp_def split: sum.splits)
qed

theorem file_or_path_leak_record_witness:
  "HasFileOrPathLeakOnly pem_rule ''/src/key.pem''
   \<and> \<not> HasFileOrPathLeakOnly key_rule ''/src/key.pem''
   \<and> \<not> (FileAllowed (Allowlist (cfg example_scanner)) (filepath_Base ''/src/key.pem'')
         \<or> PathAllowed (Allowlist (cfg example_scanner)) ''/src/key.pem'')
   \<and> sent (file_or_path_leak example_scanner (- 1) ''/src/key.pem'' pem_rule)
       = [\<lparr>Line = [], LineNumber = - 1,
           Offender = ''Filename or path offender: /src/key.pem'',
           Commit = [], Repo = [], RepoURL = [], LeakURL = [],
           Rule = ''PEM file'', Message = [], Author = [], Email = [],
           File = ''/src/key.pem'', Date = Time 0, Tags = ''file''\<rparr>]
   \<and> sent (file_or_path_leak example_scanner (- 1) ''/src/key.pem'' key_rule) = []
   \<and> prefix (concat (map (\<lambda>rule. sent (file_or_path_leak example_scanner (- 1) ''/src/key.pem'' rule))
                          (Rules (cfg example_scanner))))
             (sent (fst (scan_file example_fs example_scanner (- 1) ''/src/key.pem'')))"
proof -
  have a: "HasFileOrPathLeakOnly pem_rule ''/src/key.pem''"
    by (simp add: pem_rule_def suffix_to_prefix)
  have b: "\<not> HasFileOrPathLeakOnly key_rule ''/src/key.pem''"
    by (simp add: key_rule_def)
  have c: "\<not> (FileAllowed (Allowlist (cfg example_scanner)) (filepath_Base ''/src/key.pem'')
         \<or> PathAllowed (Allowlist (cfg example_scanner)) ''/src/key.pem'')"
    by (simp add: example_scanner_def allow_none_def filepath_Base_def)
  have d: "Description pem_rule = ''PEM file''"
    "strings_Join (Rule.Tags pem_rule) '', '' = ''file''"
    by (simp_all add: pem_rule_def)
  from a b c d
    file_or_path_leak_record [of pem_rule "''/src/key.pem''" example_scanner "- 1" example_fs]
    file_or_path_leak_record [of key_rule "''/src/key.pem''" example_scanner "- 1" example_fs]
  show ?thesis by simp
qed

text \<open>
  C2. In the loop over the lines of a file, for a line and a rule whose \<^verbatim>\<open>Inspect\<close>
  returns a non-empty offender, no leak is sent exactly when the global allowlist's
  pattern allows the line, or the rule's own allowlist allows the file name or the
  path, or the rule has a file-name pattern that the file name does not match, or the
  rule has a path pattern that the path does not match. Otherwise one leak is sent:
  its line is the line, its offender what \<^verbatim>\<open>Inspect\<close> returned, its line number
  the counter of the line, its file the path, with the rule's description and its tags
  joined by a comma and a space. The counter is 1 at the first line of the file: the
  effects of the loop are those of the lines in order, the line at index \<open>i\<close>
  (from 0) inspected with line number \<open>i + 1\<close> against every rule in order.
  The matching task runs this loop: for a file that the global allowlist does not
  allow, it sends the leaks of the rules that match on the path alone, then, when the
  file does not open, returns the error of \<^verbatim>\<open>os.Open\<close>, and when it opens,
  inspects the lines of the file, numbered from 1, and returns the result of closing
  the file.
\<close>

theorem line_match_record:
  "(Inspect rule line \<noteq> [] \<longrightarrow>
      sent (inspect_line ngs defaultLineNumber p lineNumber line rule)
        = (if RegexAllowed (Allowlist (cfg ngs)) line
              \<or> FileAllowed (AllowList rule) (filepath_Base p)
              \<or> PathAllowed (AllowList rule) p
              \<or> (Rule.File rule \<noteq> [] \<and> \<not> HasFileLeak rule (filepath_Base p))
              \<or> (Rule.Path rule \<noteq> [] \<and> \<not> HasFilePathLeak rule p)
           then []
           else [\<lparr>Line = line, LineNumber = lineNumber, Offender = Inspect rule line,
                  Commit = [], Repo = [], RepoURL = [], LeakURL = [],
                  Rule = Description rule, Message = [], Author = [], Email = [],
                  File = p, Date = Time 0, Tags = strings_Join (Rule.Tags rule) '', ''\<rparr>]))
   \<and> scan_lines ngs defaultLineNumber p 0 lines
       = concat (map (\<lambda>(i, line).
                        concat (map (inspect_line ngs defaultLineNumber p (int i + 1) line)
                                    (Rules (cfg ngs))))
                     (enumerate 0 lines))
   \<and> (\<not> (FileAllowed (Allowlist (cfg ngs)) (filepath_Base p)
          \<or> PathAllowed (Allowlist (cfg ngs)) p) \<longrightarrow>
        (Open fs p = Inr lines \<longrightarrow>
           scan_file fs ngs defaultLineNumber p
             = (file_or_path_leaks ngs defaultLineNumber p (Rules (cfg ngs))
                  @ concat (map (\<lambda>(i, line).
                                   concat (map (inspect_line ngs defaultLineNumber p (int i + 1) line)
                                               (Rules (cfg ngs))))
                                (enumerate 0 lines)),
                Close fs p))
        \<and> (Open fs p = Inl err \<longrightarrow>
             scan_file fs ngs defaultLineNumber p
               = (file_or_path_leaks ngs defaultLineNumber p (Rules (cfg ngs)), Some err)))"
proof (intro conjI impI)
  assume "Inspect rule line \<noteq> []"
  then show "sent (inspect_line ngs defaultLineNumber p lineNumber line rule)
        = (if RegexAllowed (Allowlist (cfg ngs)) line
              \<or> FileAllowed (AllowList rule) (filepath_Base p)
              \<or> PathAllowed (AllowList rule) p
              \<or> (Rule.File rule \<noteq> [] \<and> \<not> HasFileLeak rule (filepath_Base p))
              \<or> (Rule.Path rule \<noteq> [] \<and> \<not> HasFilePathLeak rule p)
           then []
           else [\<lparr>Line = line, LineNumber = lineNumber, Offender = Inspect rule line,
                  Commit = [], Repo = [], RepoURL = [], LeakURL = [],
                  Rule = Description rule, Message = [], Author = [], Email = [],
                  File = p, Date = Time 0, Tags = strings_Join (Rule.Tags rule) '', ''\<rparr>])"
    by (simp add: inspect_line_def Let_def sent_emit NewLeak_def)
next
  show "scan_lines ngs defaultLineNumber p 0 lines
       = concat (map (\<lambda>(i, line).
                        concat (map (inspect_line ngs defaultLineNumber p (int i + 1) line)
                                    (Rules (cfg ngs))))
                     (enumerate 0 lines))"
    by (simp add: scan_lines_numbering inspect_rules_concat)
next
  assume "\<not> (FileAllowed (Allowlist (cfg ngs)) (filepath_Base p)
             \<or> PathAllowed (Allowlist (cfg ngs)) p)"
    and "Open fs p = Inr lines"
  then show "scan_file fs ngs defaultLineNumber p
             = (file_or_path_leaks ngs defaultLineNumber p (Rules (cfg ngs))
                  @ concat (map (\<lambda>(i, line).
                                   concat (map (inspect_line ngs defaultLineNumber p (int i + 1) line)
                                               (Rules (cfg ngs))))
                                (enumerate 0 lines)),
                Close fs p)"
    by (simp add: scan_file_def Let_def scan_lines_numbering inspect_rules_concat)
next
  assume "\<not> (FileAllowed (Allowlist (cfg ngs)) (filepath_Base p)
             \<or> PathAllowed (Allowlist (cfg ngs)) p)"
    and "Open fs p = Inl err"
  then show "scan_file fs ngs defaultLineNumber p
               = (file_or_path_leaks ngs defaultLineNumber p (Rules (cfg ngs)), Some err)"
    by (simp add: scan_file_def Let_def)
qed

theorem line_match_record_witness:
  "Inspect key_rule ''key=AKIA12'' \<noteq> []
   \<and> sent (inspect_line example_scanner (- 1) ''/src/a/other.txt'' 2 ''key=AKIA12'' key_rule)
       = [\<lparr>Line = ''key=AKIA12'', LineNumber = 2, Offender = ''AKIA'',
           Commit = [], Repo = [], RepoURL = [], LeakURL = [],
           Rule = ''AWS key'', Message = [], Author = [], Email = [],
           File = ''/src/a/other.txt'', Date = Time 0, Tags = ''key, AWS''\<rparr>]
   \<and> sent (inspect_line example_scanner (- 1) ''/src/a/other.txt'' 2 ''key=AKIA12''
             (key_rule\<lparr>Rule.File := ''go$''\<rparr>)) = []
   \<and> sent (scan_lines example_scanner (- 1) ''/src/a/other.txt'' 0 [''x = 1'', ''key=AKIA12''])
       = [\<lparr>Line = ''key=AKIA12'', LineNumber = 2, Offender = ''AKIA'',
           Commit = [], Repo = [], RepoURL = [], LeakURL = [],
           Rule = ''AWS key'', Message = [], Author = [], Email = [],
           File = ''/src/a/other.txt'', Date = Time 0, Tags = ''key, AWS''\<rparr>]
   \<and> Open example_fs ''/src/a/other.txt'' = Inr [''x = 1'', ''key=AKIA12'']
   \<and> scan_file example_fs example_scanner (- 1) ''/src/a/other.txt''
       = ([Send \<lparr>Line = ''key=AKIA12'', LineNumber = 2, Offender = ''AKIA'',
                  Commit = [], Repo = [], RepoURL = [], LeakURL = [],
                  Rule = ''AWS key'', Message = [], Author = [], Email = [],
                  File = ''/src/a/other.txt'', Date = Time 0, Tags = ''key, AWS''\<rparr>], None)
   \<and> scan_file (example_fs\<lparr>Open := (\<lambda>path. Inl (Error ''permission denied''))\<rparr>)
         example_scanner (- 1) ''/src/a/other.txt''
       = ([], Some (Error ''permission denied''))"
proof -
  have a: "Inspect key_rule ''key=AKIA12'' = ''AKIA''"
    "Inspect (key_rule\<lparr>Rule.File := ''go$''\<rparr>) ''key=AKIA12'' = ''AKIA''"
    "Inspect key_rule ''x = 1'' = []" "Inspect pem_rule l = []" for l
    by (simp_all add: key_rule_def pem_rule_def sublist_code)
  have b: "Description key_rule = ''AWS key''"
    "strings_Join (Rule.Tags key_rule) '', '' = ''key, AWS''"
    "Rule.File key_rule = []" "Rule.Path key_rule = []"
    "\<not> FileAllowed (AllowList key_rule) n" "\<not> PathAllowed (AllowList key_rule) n"
    "\<not> RegexAllowed (Allowlist (cfg example_scanner)) l"
    "\<not> HasFileLeak key_rule n"
    "Rules (cfg example_scanner) = [key_rule, pem_rule]" for n l
    by (simp_all add: key_rule_def allow_none_def example_scanner_def)
  have c: "sent (inspect_line example_scanner (- 1) ''/src/a/other.txt'' 2 ''key=AKIA12'' key_rule)
       = [\<lparr>Line = ''key=AKIA12'', LineNumber = 2, Offender = ''AKIA'',
           Commit = [], Repo = [], RepoURL = [], LeakURL = [],
           Rule = ''AWS key'', Message = [], Author = [], Email = [],
           File = ''/src/a/other.txt'', Date = Time 0, Tags = ''key, AWS''\<rparr>]"
    using line_match_record [of key_rule "''key=AKIA12''" example_scanner "- 1"
        "''/src/a/other.txt''" 2 "[]"] a b
    by simp
  have d: "sent (inspect_line example_scanner (- 1) ''/src/a/other.txt'' 2 ''key=AKIA12''
             (key_rule\<lparr>Rule.File := ''go$''\<rparr>)) = []"
    using line_match_record [of "key_rule\<lparr>Rule.File := ''go$''\<rparr>" "''key=AKIA12''" example_scanner
        "- 1" "''/src/a/other.txt''" 2 "[]"] a b
    by simp
  have e: "sent (inspect_line example_scanner (- 1) ''/src/a/other.txt'' n l pem_rule) = []"
    "sent (inspect_line example_scanner (- 1) ''/src/a/other.txt'' n ''x = 1'' key_rule) = []" for n l
    using a by (simp_all add: inspect_line_def Let_def)
  have f: "sent (scan_lines example_scanner (- 1) ''/src/a/other.txt'' 0 [''x = 1'', ''key=AKIA12''])
       = sent (inspect_line example_scanner (- 1) ''/src/a/other.txt'' 2 ''key=AKIA12'' key_rule)"
    using line_match_record [of key_rule "''key=AKIA12''" example_scanner "- 1"
        "''/src/a/other.txt''" 2 "[''x = 1'', ''key=AKIA12'']"] b(9) e
    by (simp add: sent_append)
  let ?p = "''/src/a/other.txt''"
  let ?denied = "example_fs\<lparr>Open := (\<lambda>path. Inl (Error ''permission denied''))\<rparr>"
  have g: "\<not> (FileAllowed (Allowlist (cfg example_scanner)) (filepath_Base ?p)
              \<or> PathAllowed (Allowlist (cfg example_scanner)) ?p)"
    "Open example_fs ?p = Inr [''x = 1'', ''key=AKIA12'']" "Close example_fs ?p = None"
    "Open ?denied ?p = Inl (Error ''permission denied'')"
    "Verbose (opts example_scanner) = False"
    by (simp_all add: example_scanner_def example_fs_def allow_none_def filepath_Base_def)
  have h: "file_or_path_leaks example_scanner (- 1) ?p [key_rule, pem_rule] = []"
    by (simp add: file_or_path_leak_def key_rule_def pem_rule_def suffix_to_prefix)
  have i: "inspect_line example_scanner (- 1) ?p n l pem_rule = []"
    "inspect_line example_scanner (- 1) ?p n ''x = 1'' key_rule = []" for n l
    using a by (simp_all add: inspect_line_def Let_def)
  have j: "inspect_line example_scanner (- 1) ?p 2 ''key=AKIA12'' key_rule
             = [Send \<lparr>Line = ''key=AKIA12'', LineNumber = 2, Offender = ''AKIA'',
                  Commit = [], Repo = [], RepoURL = [], LeakURL = [],
                  Rule = ''AWS key'', Message = [], Author = [], Email = [],
                  File = ?p, Date = Time 0, Tags = ''key, AWS''\<rparr>]"
    using a b g(5) by (simp add: inspect_line_def Let_def emit_def NewLeak_def filepath_Base_def)
  have k: "scan_file example_fs example_scanner (- 1) ?p
       = ([Send \<lparr>Line = ''key=AKIA12'', LineNumber = 2, Offender = ''AKIA'',
                  Commit = [], Repo = [], RepoURL = [], LeakURL = [],
                  Rule = ''AWS key'', Message = [], Author = [], Email = [],
                  File = ?p, Date = Time 0, Tags = ''key, AWS''\<rparr>], None)"
    using line_match_record [of key_rule "''key=AKIA12''" example_scanner "- 1" ?p 2
        "[''x = 1'', ''key=AKIA12'']" example_fs undefined] g b(9) h i j
    by simp
  have l: "scan_file ?denied example_scanner (- 1) ?p = ([], Some (Error ''permission denied''))"
    using line_match_record [of key_rule "''key=AKIA12''" example_scanner "- 1" ?p 2
        "[]" ?denied "Error ''permission denied''"] g b(9) h
    by simp
  from a c d f g(2) k l show ?thesis by simp
qed

section \<open>Construction of the NoGitScanner\<close>

text \<open>
  C9, as the code has it. \<^verbatim>\<open>NewNoGitScanner\<close> extends the allowlist of its own copy
  of the configuration through \<^verbatim>\<open>IgnoreDotGit\<close> before it returns the scanner, so
  before any scan. When the extension fails, the error is written to the log at error
  level and the constructor returns \<^verbatim>\<open>nil\<close>: the caller receives no scanner and no
  error value.
\<close>

theorem NewNoGitScanner_result:
  "(IgnoreDotGit (Allowlist (cfg base)) = Inr allowlist \<longrightarrow>
      NewNoGitScanner IgnoreDotGit base
        = ([], Some (base\<lparr>cfg := (cfg base)\<lparr>Allowlist := allowlist\<rparr>,
                          scannerType := typeNoGitScanner\<rparr>)))
   \<and> (IgnoreDotGit (Allowlist (cfg base)) = Inl err \<longrightarrow>
        NewNoGitScanner IgnoreDotGit base = ([LogError err], None))"
  by (simp add: NewNoGitScanner_def)

theorem NewNoGitScanner_result_witness:
  "(\<exists>ngs. NewNoGitScanner ignore_dot_git example_scanner = ([], Some ngs)
          \<and> PathAllowed (Allowlist (cfg ngs)) ''/src/.git/config''
          \<and> Rules (cfg ngs) = Rules (cfg example_scanner))
   \<and> NewNoGitScanner ignore_fails_syntax example_scanner
       = ([LogError (Error ''error parsing regexp'')], None)"
  using NewNoGitScanner_result [of ignore_dot_git example_scanner
          "(Allowlist (cfg example_scanner))\<lparr>PathAllowed := (\<lambda>path. PathAllowed (Allowlist (cfg example_scanner)) path \<or> sublist ''.git'' path)\<rparr>"]
        NewNoGitScanner_result [of ignore_fails_syntax example_scanner _ "Error ''error parsing regexp''"]
  by (simp add: ignore_dot_git_def ignore_fails_syntax_def sublist_code)

text \<open>
  The claim C9 as stated fails: the caller cannot tell the cause of a failed
  construction from what it receives. Two extensions that fail with different errors
  make the constructor return the same value, \<^verbatim>\<open>nil\<close>.
\<close>

theorem NewNoGitScanner_cause_counterexample:
  "snd (NewNoGitScanner ignore_fails_syntax example_scanner) = None
   \<and> snd (NewNoGitScanner ignore_fails_memory example_scanner) = None
   \<and> ignore_fails_syntax (Allowlist (cfg example_scanner))
       \<noteq> ignore_fails_memory (Allowlist (cfg example_scanner))"
  by (simp add: NewNoGitScanner_def ignore_fails_syntax_def ignore_fails_memory_def)

section \<open>The loop of the ParentScanner\<close>

text \<open>
  C3. In the loop of \<^verbatim>\<open>ParentScanner.Scan\<close>, when the entry is a directory and
  opening it as a repository fails: if the message of the error is
  \<^verbatim>\<open>repository does not exist\<close>, a debug line is logged and the loop goes on with the
  remaining entries, the scanner and the report unchanged; for any other error the scan
  returns that error at once, with the state as it was before this entry, whatever
  entries remain.
\<close>

theorem repository_open_failure:
  assumes "IsDir f"
    and "PlainOpen env (filepath_Join env (Options.Path (opts (ds st))) (Name f)) = Inl err"
  shows "scan_dirs env st (f # files) =
           (if error_message err = ''repository does not exist''
            then scan_dirs env
                   (st\<lparr>logged := logged st @ [LogDebug (Name f @ '' is not a git repository'')]\<rparr>)
                   files
            else (st, Some err))"
  using assms by simp

theorem repository_open_failure_witness:
  "scan_dirs example_env example_state
     [\<lparr>Name = ''notes'', IsDir = True\<rparr>, \<lparr>Name = ''locked'', IsDir = True\<rparr>,
      \<lparr>Name = ''app'', IsDir = True\<rparr>]
   = (example_state\<lparr>logged := [LogDebug ''notes is not a git repository'']\<rparr>,
      Some (Error ''permission denied''))
   \<and> snd (ParentScanner_Scan example_env (NewParentScanner example_scanner))
       = Some (Error ''permission denied'')
   \<and> logged (fst (ParentScanner_Scan example_env (NewParentScanner example_scanner)))
       = [LogDebug (''scanning repos in /src'' @ [CHR 0x0A]),
          LogDebug ''notes is not a git repository'']"
proof -
  have whole: "snd (ParentScanner_Scan example_env (NewParentScanner example_scanner))
       = Some (Error ''permission denied'')"
    "logged (fst (ParentScanner_Scan example_env (NewParentScanner example_scanner)))
       = [LogDebug (''scanning repos in /src'' @ [CHR 0x0A]),
          LogDebug ''notes is not a git repository'']"
    by (simp_all add: ParentScanner_Scan_def NewParentScanner_def example_env_def
        example_scanner_def allow_none_def load_repo_config_def add_report_def wrap_int64_def Let_def)
  let ?notes = "\<lparr>Name = ''notes'', IsDir = True\<rparr>"
  let ?locked = "\<lparr>Name = ''locked'', IsDir = True\<rparr>"
  let ?app = "\<lparr>Name = ''app'', IsDir = True\<rparr>"
  let ?st = "example_state\<lparr>logged := [LogDebug ''notes is not a git repository'']\<rparr>"
  have path: "Options.Path (opts (ds example_state)) = ''/src''"
    "Options.Path (opts (ds ?st)) = ''/src''" "logged example_state = []"
    by (simp_all add: example_state_def example_scanner_def)
  have open_notes: "PlainOpen example_env
                 (filepath_Join example_env (Options.Path (opts (ds example_state))) (Name ?notes))
               = Inl (Error ''repository does not exist'')"
    by (simp add: path example_env_def)
  have open_locked: "PlainOpen example_env
                  (filepath_Join example_env (Options.Path (opts (ds ?st))) (Name ?locked))
                = Inl (Error ''permission denied'')"
    by (simp add: path example_env_def)
  have "scan_dirs example_env example_state [?notes, ?locked, ?app]
          = scan_dirs example_env ?st [?locked, ?app]"
    using repository_open_failure [OF _ open_notes, of "[?locked, ?app]"] path by simp
  also have "\<dots> = (?st, Some (Error ''permission denied''))"
    using repository_open_failure [OF _ open_locked, of "[?app]"] by simp
  finally show ?thesis using whole by simp
qed

lemma load_repo_config_opts: "opts (ds (load_repo_config env st repo)) = opts (ds st)"
  by (simp add: load_repo_config_def split: sum.splits)

lemma add_report_ds: "ds (add_report st r) = ds st"
  by (simp add: add_report_def)

lemma scan_dirs_opts: "opts (ds (fst (scan_dirs env st files))) = opts (ds st)"
proof (induction files arbitrary: st)
  case Nil
  show ?case by simp
next
  case (Cons f files)
  show ?case
    by (simp add: Cons.IH Let_def load_repo_config_opts add_report_ds split: sum.splits)
qed

text \<open>When the only configuration that \<^verbatim>\<open>LoadRepoConfig\<close> can return is the one in
  use, the loop ends with that configuration.\<close>

lemma load_repo_config_cfg:
  assumes "\<forall>r c'. LoadRepoConfig env r (RepoConfigPath (opts (ds st))) = Inr c' \<longrightarrow> c' = cfg (ds st)"
  shows "cfg (ds (load_repo_config env st repo)) = cfg (ds st)"
  using assms by (auto simp: load_repo_config_def split: sum.splits)

lemma scan_dirs_cfg:
  assumes "\<forall>r c'. LoadRepoConfig env r (RepoConfigPath (opts (ds st))) = Inr c' \<longrightarrow> c' = cfg (ds st)"
  shows "cfg (ds (fst (scan_dirs env st files))) = cfg (ds st)"
  using assms
proof (induction files arbitrary: st)
  case Nil
  show ?case by simp
next
  case (Cons f files)
  let ?warn = "st\<lparr>logged := logged st @ [LogDebug (Name f @ '' is not a git repository'')]\<rparr>"
  have skip: "cfg (ds (fst (scan_dirs env st files))) = cfg (ds st)"
    using Cons.IH [of st] Cons.prems by simp
  have warn: "cfg (ds (fst (scan_dirs env ?warn files))) = cfg (ds st)"
    using Cons.IH [of ?warn] Cons.prems by simp
  have scanned: "cfg (ds (fst (scan_dirs env (add_report (load_repo_config env st repo) r) files)))
                   = cfg (ds st)" for repo r
    using Cons.IH [of "add_report (load_repo_config env st repo) r"] Cons.prems
      load_repo_config_cfg [OF Cons.prems, of repo]
    by (simp add: add_report_ds load_repo_config_opts)
  show ?case
    using skip warn scanned load_repo_config_cfg [OF Cons.prems]
    by (simp add: Let_def split: sum.splits)
qed

text \<open>
  C7. In the loop of \<^verbatim>\<open>ParentScanner.Scan\<close>, for a directory that opens as a
  repository and is not allow-listed, when \<^verbatim>\<open>opts.RepoConfigPath\<close> is not empty:
  if loading the repository's configuration fails, a warning is logged and the
  repository is scanned with the scanner as it is, its configuration unchanged for the
  entries that follow; if loading succeeds, the loaded configuration is assigned to
  the scanner's configuration, the repository is scanned with it, and the loop goes on
  with it. It stays the scanner's configuration to the end of the loop unless a later
  entry loads a different one.
\<close>

theorem repo_config_override:
  assumes "IsDir f"
    and "PlainOpen env (filepath_Join env (Options.Path (opts (ds st))) (Name f)) = Inr repo"
    and "\<not> RepoAllowed (Allowlist (cfg (ds st))) (Name f)"
    and "RepoConfigPath (opts (ds st)) \<noteq> []"
  shows "(LoadRepoConfig env repo (RepoConfigPath (opts (ds st))) = Inl err \<longrightarrow>
            scan_dirs env st (f # files) =
              (case RepoScan env (ds st) repo (Name f) of
                 Inl e \<Rightarrow> (st\<lparr>logged := logged st @ [LogWarn err]\<rparr>, Some e)
               | Inr r \<Rightarrow>
                   scan_dirs env (add_report (st\<lparr>logged := logged st @ [LogWarn err]\<rparr>) r) files))
         \<and> (LoadRepoConfig env repo (RepoConfigPath (opts (ds st))) = Inr c \<longrightarrow>
              scan_dirs env st (f # files) =
                (case RepoScan env ((ds st)\<lparr>cfg := c\<rparr>) repo (Name f) of
                   Inl e \<Rightarrow> (st\<lparr>ds := (ds st)\<lparr>cfg := c\<rparr>\<rparr>, Some e)
                 | Inr r \<Rightarrow> scan_dirs env (add_report (st\<lparr>ds := (ds st)\<lparr>cfg := c\<rparr>\<rparr>) r) files)
              \<and> ((\<forall>r c'. LoadRepoConfig env r (RepoConfigPath (opts (ds st))) = Inr c' \<longrightarrow> c' = c)
                   \<longrightarrow> cfg (ds (fst (scan_dirs env st (f # files)))) = c))"
proof (intro conjI impI)
  assume "LoadRepoConfig env repo (RepoConfigPath (opts (ds st))) = Inl err"
  with assms show "scan_dirs env st (f # files) =
              (case RepoScan env (ds st) repo (Name f) of
                 Inl e \<Rightarrow> (st\<lparr>logged := logged st @ [LogWarn err]\<rparr>, Some e)
               | Inr r \<Rightarrow>
                   scan_dirs env (add_report (st\<lparr>logged := logged st @ [LogWarn err]\<rparr>) r) files)"
    by (simp add: load_repo_config_def Let_def)
next
  assume loaded: "LoadRepoConfig env repo (RepoConfigPath (opts (ds st))) = Inr c"
  with assms show step: "scan_dirs env st (f # files) =
                (case RepoScan env ((ds st)\<lparr>cfg := c\<rparr>) repo (Name f) of
                   Inl e \<Rightarrow> (st\<lparr>ds := (ds st)\<lparr>cfg := c\<rparr>\<rparr>, Some e)
                 | Inr r \<Rightarrow> scan_dirs env (add_report (st\<lparr>ds := (ds st)\<lparr>cfg := c\<rparr>\<rparr>) r) files)"
    by (simp add: load_repo_config_def Let_def)
  assume only: "\<forall>r c'. LoadRepoConfig env r (RepoConfigPath (opts (ds st))) = Inr c' \<longrightarrow> c' = c"
  let ?st = "st\<lparr>ds := (ds st)\<lparr>cfg := c\<rparr>\<rparr>"
  have rest: "cfg (ds (fst (scan_dirs env (add_report ?st r) files))) = c" for r
    using scan_dirs_cfg [of env "add_report ?st r" files] only
    by (simp add: add_report_ds)
  show "cfg (ds (fst (scan_dirs env st (f # files)))) = c"
    unfolding step using rest by (simp split: sum.splits)
qed

theorem repo_config_override_witness:
  "scan_dirs example_env example_state [\<lparr>Name = ''app'', IsDir = True\<rparr>, \<lparr>Name = ''lib'', IsDir = True\<rparr>]
     = (example_state\<lparr>ds := (ds example_state)\<lparr>cfg := repo_config\<rparr>,
                      scannerReport := \<lparr>Leaks = [], Commits = 2\<rparr>,
                      logged := [LogWarn (Error ''no configuration'')]\<rparr>, None)
   \<and> scan_dirs example_env example_state [\<lparr>Name = ''lib'', IsDir = True\<rparr>]
       = (example_state\<lparr>scannerReport := \<lparr>Leaks = [], Commits = 2\<rparr>,
                        logged := [LogWarn (Error ''no configuration'')]\<rparr>, None)
   \<and> cfg (ds (fst (scan_dirs example_env example_state
                      [\<lparr>Name = ''app'', IsDir = True\<rparr>, \<lparr>Name = ''lib'', IsDir = True\<rparr>])))
       = repo_config"
proof -
  let ?app = "\<lparr>Name = ''app'', IsDir = True\<rparr>"
  let ?lib = "\<lparr>Name = ''lib'', IsDir = True\<rparr>"
  let ?st = "example_state\<lparr>ds := (ds example_state)\<lparr>cfg := repo_config\<rparr>\<rparr>"
  let ?st1 = "add_report ?st \<lparr>Leaks = [], Commits = 1\<rparr>"
  have st: "Options.Path (opts (ds example_state)) = ''/src''"
    "RepoConfigPath (opts (ds example_state)) = ''.gitleaks.toml''"
    "\<not> RepoAllowed (Allowlist (cfg (ds example_state))) n"
    "logged example_state = []" "scannerReport example_state = \<lparr>Leaks = [], Commits = 0\<rparr>"
    "length (Rules (cfg (ds example_state))) = 2" for n
    by (simp_all add: example_state_def example_scanner_def allow_none_def)
  have st1: "Options.Path (opts (ds ?st1)) = ''/src''"
    "RepoConfigPath (opts (ds ?st1)) = ''.gitleaks.toml''"
    "\<not> RepoAllowed (Allowlist (cfg (ds ?st1))) n"
    "logged ?st1 = []" "scannerReport ?st1 = \<lparr>Leaks = [], Commits = 1\<rparr>"
    "ds ?st1 = (ds example_state)\<lparr>cfg := repo_config\<rparr>" for n
    by (simp_all add: add_report_def wrap_int64_def st repo_config_def allow_none_def)
  have env: "PlainOpen example_env (filepath_Join example_env ''/src'' ''app'') = Inr (Repository ''/src/app'')"
    "PlainOpen example_env (filepath_Join example_env ''/src'' ''lib'') = Inr (Repository ''/src/lib'')"
    "LoadRepoConfig example_env (Repository ''/src/app'') ''.gitleaks.toml'' = Inr repo_config"
    "LoadRepoConfig example_env (Repository ''/src/lib'') ''.gitleaks.toml'' = Inl (Error ''no configuration'')"
    "RepoScan example_env b r n = Inr \<lparr>Leaks = [], Commits = int (length (Rules (cfg b)))\<rparr>"
    "\<forall>r c'. LoadRepoConfig example_env r ''.gitleaks.toml'' = Inr c' \<longrightarrow> c' = repo_config" for b r n
    by (simp_all add: example_env_def)
  have rules: "length (Rules repo_config) = 1"
    by (simp add: repo_config_def)
  have both: "scan_dirs example_env example_state [?app, ?lib] = scan_dirs example_env ?st1 [?lib]
              \<and> cfg (ds (fst (scan_dirs example_env ?st1 [?lib]))) = repo_config"
    using repo_config_override [of ?app example_env example_state "Repository ''/src/app''"
        undefined "[?lib]" repo_config] st env rules
    by (auto simp del: scan_dirs.simps(2))
  note app = both [THEN conjunct1]
  have final: "cfg (ds (fst (scan_dirs example_env example_state [?app, ?lib]))) = repo_config"
    unfolding app using both by (simp del: scan_dirs.simps)
  have lib1: "scan_dirs example_env ?st1 [?lib]
               = (add_report (?st1\<lparr>logged := [LogWarn (Error ''no configuration'')]\<rparr>)
                    \<lparr>Leaks = [], Commits = 1\<rparr>, None)"
    using repo_config_override [of ?lib example_env ?st1 "Repository ''/src/lib''"
        "Error ''no configuration''" "[]" undefined] st1 env rules
    by (simp del: scan_dirs.simps(2))
  have lib0: "scan_dirs example_env example_state [?lib]
               = (add_report (example_state\<lparr>logged := [LogWarn (Error ''no configuration'')]\<rparr>)
                    \<lparr>Leaks = [], Commits = 2\<rparr>, None)"
    using repo_config_override [of ?lib example_env example_state "Repository ''/src/lib''"
        "Error ''no configuration''" "[]" undefined] st env
    by (simp del: scan_dirs.simps(2))
  have first: "scan_dirs example_env example_state [?app, ?lib]
     = (example_state\<lparr>ds := (ds example_state)\<lparr>cfg := repo_config\<rparr>,
                      scannerReport := \<lparr>Leaks = [], Commits = 2\<rparr>,
                      logged := [LogWarn (Error ''no configuration'')]\<rparr>, None)"
    unfolding app lib1 by (simp add: add_report_def wrap_int64_def st)
  have second: "scan_dirs example_env example_state [?lib]
       = (example_state\<lparr>scannerReport := \<lparr>Leaks = [], Commits = 2\<rparr>,
                        logged := [LogWarn (Error ''no configuration'')]\<rparr>, None)"
    unfolding lib0 by (simp add: add_report_def wrap_int64_def st)
  from first second final show ?thesis by (simp del: scan_dirs.simps)
qed

end
